theory Spec2Isabelle
  imports Complex_Main
begin

section \<open>Errors and configuration\<close>

text \<open>
  The exceptions the generator and the replayer can raise. None of them is caught by
  the scripts (the replayer catches only a failed timestamp parse and KeyboardInterrupt),
  so each one ends the run.
\<close>

datatype error = ValueError | OverflowError | IndexError | TypeError

text \<open>
  The parsed command line of \<^verbatim>\<open>make_files.py\<close> (\<^verbatim>\<open>build_args\<close>). The
  two output paths are left out: they name files and reach no computed value.
  \<^verbatim>\<open>--interval-sec\<close> is a Python int (unbounded); the two floats are read as reals.
\<close>

record args =
  site :: string
  line :: string
  machine :: string
  date :: string
  interval_sec :: int
  ideal_ct_s :: real
  reject_rate :: real

section \<open>Parsing the date\<close>

text \<open>
  \<^verbatim>\<open>y, m, d = map(int, args.date.split("-"))\<close>. The library function \<^verbatim>\<open>int\<close> is
  modelled on ASCII text: surrounding whitespace, an optional sign, decimal digits with
  single underscores between digits, and at most 4300 digits.
\<close>

definition is_py_space :: "char \<Rightarrow> bool" where
  "is_py_space c =
     (c \<in> set [CHR 0x09, CHR 0x0A, CHR 0x0B, CHR 0x0C, CHR 0x0D,
                CHR 0x1C, CHR 0x1D, CHR 0x1E, CHR 0x1F, CHR 0x20])"

definition py_strip :: "string \<Rightarrow> string" where
  "py_strip s = rev (dropWhile is_py_space (rev (dropWhile is_py_space s)))"

definition is_digit :: "char \<Rightarrow> bool" where
  "is_digit c = (c \<in> set ''0123456789'')"

definition digit_of :: "char \<Rightarrow> int" where
  "digit_of c = int (of_char c) - 48"

fun py_digits :: "bool \<Rightarrow> int \<Rightarrow> string \<Rightarrow> int option" where
  "py_digits prev acc [] = (if prev then Some acc else None)"
| "py_digits prev acc (c # cs) =
     (if is_digit c then py_digits True (10 * acc + digit_of c) cs
      else if c = CHR ''_'' \<and> prev then py_digits False acc cs
      else None)"

definition py_int :: "string \<Rightarrow> int option" where
  "py_int s =
     (let t = py_strip s;
          neg = (case t of [] \<Rightarrow> False | c # _ \<Rightarrow> c = CHR ''-'');
          body = (case t of [] \<Rightarrow> []
                  | c # r \<Rightarrow> if c = CHR ''+'' \<or> c = CHR ''-'' then r else t)
      in if 4300 < length (filter is_digit body) then None
         else map_option (\<lambda>v. if neg then - v else v) (py_digits False 0 body))"

fun split_on :: "char \<Rightarrow> string \<Rightarrow> string list" where
  "split_on sep [] = [[]]"
| "split_on sep (c # cs) =
     (if c = sep then [] # split_on sep cs
      else (case split_on sep cs of [] \<Rightarrow> [[c]] | p # ps \<Rightarrow> (c # p) # ps))"

definition parse_date :: "string \<Rightarrow> error + (int \<times> int \<times> int)" where
  "parse_date s =
     (case split_on CHR ''-'' s of
        [a, b, c] \<Rightarrow>
          (case (py_int a, py_int b, py_int c) of
             (Some y, Some m, Some d) \<Rightarrow> Inr (y, m, d)
           | _ \<Rightarrow> Inl ValueError)
      | _ \<Rightarrow> Inl ValueError)"

section \<open>Dates and instants\<close>

text \<open>
  A \<^verbatim>\<open>datetime\<close> of the fixed zone UTC+05:30 is the number of whole seconds of
  local time since 0001-01-01 00:00:00 (the script never produces a fraction of a
  second). All instants carry the same zone, so comparison and subtraction are those of
  the local values. \<^verbatim>\<open>datetime(y, m, d, ...)\<close> raises OverflowError for an argument
  that does not fit a C int and ValueError for a date that does not exist.
\<close>

definition is_leap :: "int \<Rightarrow> bool" where
  "is_leap y = (y mod 4 = 0 \<and> (y mod 100 \<noteq> 0 \<or> y mod 400 = 0))"

definition days_in_month :: "int \<Rightarrow> int \<Rightarrow> int" where
  "days_in_month y m =
     (if m = 2 \<and> is_leap y then 29
      else [31, 28, 31, 30, 31, 30, 31, 31, 30, 31, 30, 31] ! nat (m - 1))"

definition days_before_year :: "int \<Rightarrow> int" where
  "days_before_year y = (y - 1) * 365 + (y - 1) div 4 - (y - 1) div 100 + (y - 1) div 400"

definition days_before_month :: "int \<Rightarrow> int \<Rightarrow> int" where
  "days_before_month y m = sum_list (map (days_in_month y) [1..m - 1])"

definition ymd2ord :: "int \<Rightarrow> int \<Rightarrow> int \<Rightarrow> int" where
  "ymd2ord y m d = days_before_year y + days_before_month y m + d"

definition max_ordinal :: int where
  "max_ordinal = 3652059"

definition datetime :: "int \<Rightarrow> int \<Rightarrow> int \<Rightarrow> int \<Rightarrow> int \<Rightarrow> int \<Rightarrow> error + int" where
  "datetime y m d hh mi ss =
     (if 2147483647 < y \<or> 2147483647 < m \<or> 2147483647 < d
         \<or> y < - 2147483648 \<or> m < - 2147483648 \<or> d < - 2147483648
      then Inl OverflowError
      else if y < 1 \<or> 9999 < y then Inl ValueError
      else if m < 1 \<or> 12 < m then Inl ValueError
      else if d < 1 \<or> days_in_month y m < d then Inl ValueError
      else Inr ((ymd2ord y m d - 1) * 86400 + hh * 3600 + mi * 60 + ss))"

text \<open>
  \<^verbatim>\<open>t + timedelta(seconds=interval)\<close>: the \<^verbatim>\<open>timedelta\<close> must have at most
  999999999 days either way, and the sum must be a date of the years 1 to 9999;
  otherwise OverflowError.
\<close>

definition add_seconds :: "int \<Rightarrow> int \<Rightarrow> error + int" where
  "add_seconds t s =
     (if s div 86400 < - 999999999 \<or> 999999999 < s div 86400 then Inl OverflowError
      else if t + s < 0 \<or> max_ordinal * 86400 \<le> t + s then Inl OverflowError
      else Inr (t + s))"

definition minute_of_day :: "int \<Rightarrow> int" where
  "minute_of_day t = ((t mod 86400) div 3600) * 60 + (t mod 3600) div 60"

section \<open>Timeline Builder\<close>

text \<open>
  \<^verbatim>\<open>while t <= t1: ts_list.append(t); t = t + timedelta(seconds=interval)\<close>.
  Nothing bounds the loop when the interval is not positive, so the model is a partial
  function: \<open>None\<close> is a run that never leaves the loop.
\<close>

partial_function (option) ts_loop :: "int \<Rightarrow> int \<Rightarrow> int \<Rightarrow> int list \<Rightarrow> (error + int list) option" where
  "ts_loop interval t1 t ts_list =
     (if t \<le> t1 then
        (case add_seconds t interval of
           Inl e \<Rightarrow> Some (Inl e)
         | Inr t' \<Rightarrow> ts_loop interval t1 t' (ts_list @ [t]))
      else Some (Inr ts_list))"

declare ts_loop.simps [code]

text \<open>
  The day window of \<^verbatim>\<open>main\<close>: \<^verbatim>\<open>t0\<close> is midnight and \<^verbatim>\<open>t1\<close> is 23:59:50 of
  the given date, whatever the interval.
\<close>

definition timeline :: "int \<Rightarrow> int \<Rightarrow> int \<Rightarrow> int \<Rightarrow> (error + int list) option" where
  "timeline y m d interval =
     (case datetime y m d 0 0 0 of
        Inl e \<Rightarrow> Some (Inl e)
      | Inr t0 \<Rightarrow>
          (case datetime y m d 23 59 50 of
             Inl e \<Rightarrow> Some (Inl e)
           | Inr t1 \<Rightarrow> ts_loop interval t1 t0 []))"

section \<open>The pseudo-random source\<close>

text \<open>
  \<^verbatim>\<open>random.seed(7)\<close> fixes the sequence of values that \<^verbatim>\<open>random.random()\<close>
  returns afterwards. The model takes that sequence as the parameter \<open>draws\<close> (each value
  lies in the interval from 0 inclusive to 1 exclusive) and counts how many values have
  been consumed in \<open>pos\<close>. \<^verbatim>\<open>random.gauss\<close> is the library's: it produces two values
  from two uniform draws and keeps the second one in \<open>gauss_next\<close>. Floats are read as
  reals.
\<close>

record rng =
  draws :: "nat \<Rightarrow> real"
  pos :: nat
  gauss_next :: "real option"

definition seed :: "(nat \<Rightarrow> real) \<Rightarrow> rng" where
  "seed u = \<lparr>draws = u, pos = 0, gauss_next = None\<rparr>"

definition random :: "rng \<Rightarrow> real \<times> rng" where
  "random g = (draws g (pos g), g\<lparr>pos := Suc (pos g)\<rparr>)"

definition gauss :: "real \<Rightarrow> real \<Rightarrow> rng \<Rightarrow> real \<times> rng" where
  "gauss mu sigma g =
     (case gauss_next g of
        Some z \<Rightarrow> (mu + z * sigma, g\<lparr>gauss_next := None\<rparr>)
      | None \<Rightarrow>
          (let (r1, g1) = random g;
               x2pi = r1 * (2 * pi);
               (r2, g2) = random g1;
               g2rad = sqrt (- 2 * ln (1 - r2))
           in (mu + (cos x2pi * g2rad) * sigma, g2\<lparr>gauss_next := Some (sin x2pi * g2rad)\<rparr>)))"

definition frand :: "real \<Rightarrow> real \<Rightarrow> rng \<Rightarrow> real \<times> rng" where
  "frand mu sigma g = gauss mu sigma g"

section \<open>State Simulator\<close>

text \<open>State codes are the integers of the script: 0 STOPPED, 2 RUN, 3 IDLE, 4 FAULT.\<close>

definition base_state :: "int \<Rightarrow> real \<Rightarrow> int" where
  "base_state mm r =
     (if 0 \<le> mm \<and> mm < 360 then (if r < 9 / 10 then 0 else 3)
      else if 360 \<le> mm \<and> mm < 1320 then (if r < 9 / 10 then 2 else 3)
      else (if r < 5 / 10 then 2 else 3))"

fun base_profile :: "int list \<Rightarrow> rng \<Rightarrow> int list \<times> rng" where
  "base_profile [] g = ([], g)"
| "base_profile (t # ts) g =
     (let (r, g') = random g;
          s = base_state (minute_of_day t) r;
          (ss, g'') = base_profile ts g'
      in (s # ss, g''))"

definition planned_windows :: "(int \<times> int) list" where
  "planned_windows = [(13 * 60, 13 * 60 + 30), (20 * 60, 20 * 60 + 15)]"

definition rare_faults :: "(int \<times> int) list" where
  "rare_faults = [(10 * 60 + 15, 3), (19 * 60 + 40, 4)]"

text \<open>
  The two override passes. Each visits every index \<open>i\<close> of \<^verbatim>\<open>ts_list\<close> and, for every
  window in list order, overwrites \<^verbatim>\<open>state_code[i]\<close> when the minute of the day falls
  in the window; the two lists have the same length.
\<close>

definition planned_at :: "(int \<times> int) list \<Rightarrow> int \<Rightarrow> int \<Rightarrow> int" where
  "planned_at ws mm s = fold (\<lambda>(a, b) s. if a \<le> mm \<and> mm < b then 3 else s) ws s"

definition fault_at :: "(int \<times> int) list \<Rightarrow> int \<Rightarrow> int \<Rightarrow> int" where
  "fault_at ws mm s =
     fold (\<lambda>(start_m, dur_m) s. if start_m \<le> mm \<and> mm < start_m + dur_m then 4 else s) ws s"

definition apply_planned :: "(int \<times> int) list \<Rightarrow> int list \<Rightarrow> int list \<Rightarrow> int list" where
  "apply_planned ws ts_list state_code =
     map (\<lambda>(t, s). planned_at ws (minute_of_day t) s) (zip ts_list state_code)"

definition apply_faults :: "(int \<times> int) list \<Rightarrow> int list \<Rightarrow> int list \<Rightarrow> int list" where
  "apply_faults ws ts_list state_code =
     map (\<lambda>(t, s). fault_at ws (minute_of_day t) s) (zip ts_list state_code)"

text \<open>
  The minute \<open>mm\<close> lies in one of the planned windows \<open>[a, b)\<close>, or in one of the
  fault windows \<open>[start, start + duration)\<close>.
\<close>

definition in_planned :: "(int \<times> int) list \<Rightarrow> int \<Rightarrow> bool" where
  "in_planned ws mm = list_ex (\<lambda>(a, b). a \<le> mm \<and> mm < b) ws"

definition in_fault :: "(int \<times> int) list \<Rightarrow> int \<Rightarrow> bool" where
  "in_fault ws mm = list_ex (\<lambda>(start_m, dur_m). start_m \<le> mm \<and> mm < start_m + dur_m) ws"

definition state_codes :: "(int \<times> int) list \<Rightarrow> (int \<times> int) list \<Rightarrow> int list \<Rightarrow> rng \<Rightarrow> int list \<times> rng" where
  "state_codes planned faults ts_list g =
     (let (sc, g') = base_profile ts_list g
      in (apply_faults faults ts_list (apply_planned planned ts_list sc), g'))"

definition running_of :: "int list \<Rightarrow> int list" where
  "running_of state_code = map (\<lambda>s. if s = 2 then 1 else 0) state_code"

section \<open>Production Accumulator\<close>

record acc =
  pt :: int
  pg :: int
  run_sec_accum :: real
  accum_cycle :: real
  gen :: rng

text \<open>
  \<^verbatim>\<open>while accum_cycle >= ideal_ct_s: ...\<close>. With an ideal cycle time that is not
  positive the loop never ends, so it is a partial function.
\<close>

partial_function (option) part_loop :: "real \<Rightarrow> real \<Rightarrow> acc \<Rightarrow> acc option" where
  "part_loop ideal reject a =
     (if ideal \<le> accum_cycle a then
        (let (r, g') = random (gen a)
         in part_loop ideal reject
              (a\<lparr>accum_cycle := accum_cycle a - ideal,
                 pt := pt a + 1,
                 pg := (if reject \<le> r then pg a + 1 else pg a),
                 gen := g'\<rparr>))
      else Some a)"

declare part_loop.simps [code]

definition acc_step :: "int \<Rightarrow> real \<Rightarrow> real \<Rightarrow> int \<Rightarrow> acc \<Rightarrow> acc option" where
  "acc_step interval ideal reject r a =
     (if r \<noteq> 0 then
        part_loop ideal reject
          (a\<lparr>run_sec_accum := run_sec_accum a + of_int interval,
             accum_cycle := accum_cycle a + of_int interval\<rparr>)
      else Some a)"

text \<open>
  The loop over \<^verbatim>\<open>range(n)\<close>: one row (parts_total, parts_good, run_minutes_today)
  is appended per instant.
\<close>

fun accumulate :: "int \<Rightarrow> real \<Rightarrow> real \<Rightarrow> int list \<Rightarrow> acc \<Rightarrow> ((int \<times> int \<times> real) list \<times> acc) option" where
  "accumulate interval ideal reject [] a = Some ([], a)"
| "accumulate interval ideal reject (r # rs) a =
     (case acc_step interval ideal reject r a of
        None \<Rightarrow> None
      | Some a' \<Rightarrow>
          (case accumulate interval ideal reject rs a' of
             None \<Rightarrow> None
           | Some (rows, a'') \<Rightarrow> Some ((pt a', pg a', run_sec_accum a' / 60) # rows, a'')))"

definition acc0 :: "rng \<Rightarrow> acc" where
  "acc0 g = \<lparr>pt = 0, pg = 0, run_sec_accum = 0, accum_cycle = 0, gen = g\<rparr>"

section \<open>Sensor Synthesizer\<close>

definition motor_current_at :: "int \<Rightarrow> rng \<Rightarrow> real \<times> rng" where
  "motor_current_at s g =
     (if s = 2 then (let (z, g') = frand 0 (6 / 10) g in (10 + z, g'))
      else if s = 3 then (let (z, g') = frand 0 (2 / 10) g in (12 / 10 + z, g'))
      else if s = 4 then (let (z, g') = frand 0 (1 / 10) g in (3 / 10 + z, g'))
      else (let (z, g') = frand 0 (1 / 10) g in (2 / 10 + z, g')))"

fun motor_current_loop :: "int list \<Rightarrow> rng \<Rightarrow> real list \<times> rng" where
  "motor_current_loop [] g = ([], g)"
| "motor_current_loop (s # ss) g =
     (let (x, g') = motor_current_at s g;
          (xs, g'') = motor_current_loop ss g'
      in (x # xs, g''))"

section \<open>The simulated day\<close>

record sim =
  ts_list :: "int list"
  state_code :: "int list"
  running :: "int list"
  parts_total :: "int list"
  parts_good :: "int list"
  run_minutes_today :: "real list"
  motor_current :: "real list"

text \<open>
  Lines 42 to 140 of \<^verbatim>\<open>main\<close>, before the output file is opened. \<open>None\<close> is a
  run that never ends, \<open>Some (Inl e)\<close> a run stopped by the exception \<open>e\<close>. A
  completed run returns the seven lists and the state of the pseudo-random source it
  leaves behind.
\<close>

definition simulate :: "args \<Rightarrow> (nat \<Rightarrow> real) \<Rightarrow> (error + sim \<times> rng) option" where
  "simulate a u =
     (case parse_date (date a) of
        Inl e \<Rightarrow> Some (Inl e)
      | Inr (y, m, d) \<Rightarrow>
          (case timeline y m d (interval_sec a) of
             None \<Rightarrow> None
           | Some (Inl e) \<Rightarrow> Some (Inl e)
           | Some (Inr ts) \<Rightarrow>
               (let (sc, g1) = state_codes planned_windows rare_faults ts (seed u);
                    run = running_of sc
                in (case accumulate (interval_sec a) (ideal_ct_s a) (reject_rate a) run (acc0 g1) of
                      None \<Rightarrow> None
                    | Some (rows, a') \<Rightarrow>
                        (let (mc, g3) = motor_current_loop sc (gen a')
                         in Some (Inr (\<lparr>ts_list = ts, state_code = sc, running = run,
                                        parts_total = map fst rows,
                                        parts_good = map (\<lambda>row. fst (snd row)) rows,
                                        run_minutes_today = map (\<lambda>row. snd (snd row)) rows,
                                        motor_current = mc\<rparr>, g3)))))))"

section \<open>Event Emitter\<close>

datatype val = VInt int | VBool bool | VFloat real

text \<open>
  One row of the CSV file. The timestamp is kept as the instant (\<^verbatim>\<open>isoformat\<close> is
  not modelled) and the payload as its fields (\<^verbatim>\<open>json.dumps\<close> is not modelled).
\<close>

record payload =
  p_ts :: int
  p_value :: val
  p_q :: string
  p_unit :: "string option"

record event =
  ev_ts :: int
  ev_topic :: string
  ev_payload :: payload
  ev_site :: string
  ev_line :: string
  ev_machine :: string
  ev_object :: string
  ev_metric :: string

definition topic_of :: "args \<Rightarrow> string \<Rightarrow> string \<Rightarrow> string" where
  "topic_of a obj metric =
     (''symbiotic/'' @ site a @ ''/'' @ line a @ ''/'' @ machine a) @ ''/'' @ obj @ ''/'' @ metric"

definition add_row :: "args \<Rightarrow> int \<Rightarrow> string \<Rightarrow> string \<Rightarrow> val \<Rightarrow> string option \<Rightarrow> event" where
  "add_row a t obj metric v unit =
     \<lparr>ev_ts = t, ev_topic = topic_of a obj metric,
      ev_payload = \<lparr>p_ts = t, p_value = v, p_q = ''good'', p_unit = unit\<rparr>,
      ev_site = site a, ev_line = line a, ev_machine = machine a,
      ev_object = obj, ev_metric = metric\<rparr>"

definition rows_at :: "args \<Rightarrow> sim \<Rightarrow> nat \<Rightarrow> event list" where
  "rows_at a s i =
     (let t = ts_list s ! i in
      [add_row a t ''state'' ''state_code'' (VInt (state_code s ! i)) None,
       add_row a t ''state'' ''running'' (VBool (running s ! i \<noteq> 0)) None,
       add_row a t ''counter'' ''parts_total'' (VInt (parts_total s ! i)) (Some ''count''),
       add_row a t ''counter'' ''parts_good'' (VInt (parts_good s ! i)) (Some ''count''),
       add_row a t ''kpi'' ''run_minutes_today'' (VFloat (run_minutes_today s ! i)) (Some ''min''),
       add_row a t ''sensor'' ''motor_current_a'' (VFloat (motor_current s ! i)) (Some ''A'')])"

text \<open>
  Lines 144 to 173: the file is open. \<^verbatim>\<open>ts_list[0]\<close> raises IndexError on an empty
  list, after the header has been written. All seven lists have the length of
  \<^verbatim>\<open>ts_list\<close>.
\<close>

definition write_rows :: "args \<Rightarrow> sim \<Rightarrow> error + event list" where
  "write_rows a s =
     (case ts_list s of
        [] \<Rightarrow> Inl IndexError
      | t0 # _ \<Rightarrow>
          Inr (add_row a t0 ''config'' ''ideal_ct_s'' (VFloat (ideal_ct_s a)) (Some ''s'')
               # concat (map (rows_at a s) [0..<length (ts_list s)])))"

text \<open>
  The outcome of a run of the generator: \<open>Aborted e\<close> when the exception \<open>e\<close> is raised
  before the output file is opened (nothing is written), \<open>Partial e\<close> when it is raised
  while the file is open, \<open>Written rows\<close> when the file is complete.
\<close>

datatype outcome = Aborted error | Partial error | Written "event list"

definition main :: "args \<Rightarrow> (nat \<Rightarrow> real) \<Rightarrow> outcome option" where
  "main a u =
     (case simulate a u of
        None \<Rightarrow> None
      | Some (Inl e) \<Rightarrow> Some (Aborted e)
      | Some (Inr (s, g)) \<Rightarrow>
          (case write_rows a s of
             Inl e \<Rightarrow> Some (Partial e)
           | Inr rows \<Rightarrow> Some (Written rows)))"

section \<open>Replay Engine\<close>

text \<open>
  \<^verbatim>\<open>publish_once\<close> of \<^verbatim>\<open>simple_mqtt_replayer.py\<close>. A CSV row gives three strings.
  \<^verbatim>\<open>datetime.fromisoformat\<close> is the library's and is a parameter \<open>parse\<close> of the
  model: \<open>None\<close> when it raises (the script then sets \<^verbatim>\<open>t = None\<close>), otherwise
  the instant in microseconds and whether it carries a zone. Subtracting an instant
  with a zone from one without raises TypeError, which the script does not catch. The
  effects of a pass are the trace of its sleeps and publishes.
\<close>

record csv_row =
  ts_iso :: string
  topic :: string
  payload_json :: string

record stamp =
  aware :: bool
  micros :: int

datatype action = Sleep real | Publish string string

definition total_seconds :: "stamp \<Rightarrow> stamp \<Rightarrow> error + real" where
  "total_seconds t prev =
     (if aware t \<noteq> aware prev then Inl TypeError
      else Inr (of_int (micros t - micros prev) / 1000000))"

definition delay :: "real \<Rightarrow> stamp option \<Rightarrow> stamp option \<Rightarrow> error + action list" where
  "delay speed prev t =
     (case (prev, t) of
        (Some p, Some t') \<Rightarrow>
          (case total_seconds t' p of
             Inl e \<Rightarrow> Inl e
           | Inr dt \<Rightarrow> Inr (if 0 < dt then [Sleep (dt / max speed (1 / 1000))] else []))
      | _ \<Rightarrow> Inr [])"

fun publish_rows :: "(string \<Rightarrow> stamp option) \<Rightarrow> real \<Rightarrow> stamp option \<Rightarrow> csv_row list
                     \<Rightarrow> action list \<times> error option" where
  "publish_rows parse speed prev [] = ([], None)"
| "publish_rows parse speed prev (row # rows) =
     (let t = parse (ts_iso row) in
      case delay speed prev t of
        Inl e \<Rightarrow> ([], Some e)
      | Inr sl \<Rightarrow>
          (let (tr, r) = publish_rows parse speed t rows
           in (sl @ Publish (topic row) (payload_json row) # tr, r)))"

definition publish_once :: "(string \<Rightarrow> stamp option) \<Rightarrow> real \<Rightarrow> csv_row list \<Rightarrow> action list \<times> error option" where
  "publish_once parse speed rows = publish_rows parse speed None rows"

text \<open>The value of \<^verbatim>\<open>prev\<close> after a pass over some rows.\<close>

definition prev_after :: "(string \<Rightarrow> stamp option) \<Rightarrow> stamp option \<Rightarrow> csv_row list \<Rightarrow> stamp option" where
  "prev_after parse prev rows = (case rows of [] \<Rightarrow> prev | _ \<Rightarrow> parse (ts_iso (last rows)))"

section \<open>A small run\<close>

text \<open>
  The default site, line, machine and date of \<^verbatim>\<open>build_args\<close>, with a sampling
  interval of six hours and an ideal cycle time of 10000 seconds, and a sequence of
  draws whose sixth value is 0. The theorems below are exercised on this run.
\<close>

definition demo_args :: args where
  "demo_args = \<lparr>site = ''blr'', line = ''line1'', machine = ''SF-01'', date = ''2025-09-17'',
                 interval_sec = 21600, ideal_ct_s = 10000, reject_rate = 2 / 100\<rparr>"

definition demo_draws :: "nat \<Rightarrow> real" where
  "demo_draws k = (if k = 5 then 0 else 1 / 4)"

text \<open>
  A stand-in for \<^verbatim>\<open>datetime.fromisoformat\<close> on a small log whose timestamps are written
  as whole seconds: anything else does not parse.
\<close>

definition demo_parse :: "string \<Rightarrow> stamp option" where
  "demo_parse s = map_option (\<lambda>v. \<lparr>aware = True, micros = v * 1000000\<rparr>) (py_int s)"

definition demo_row :: "string \<Rightarrow> string \<Rightarrow> csv_row" where
  "demo_row ts name = \<lparr>ts_iso = ts, topic = name, payload_json = ''{}''\<rparr>"

section \<open>Facts about dates and integer division\<close>

lemma int_div_less: "0 < (b::int) \<Longrightarrow> a < c * b \<Longrightarrow> a div b < c"
proof -
  assume b: "0 < b" and "a < c * b"
  then have "a + (- c) * b < 0" by simp
  then have "(a + (- c) * b) div b < 0" using b by (rule div_neg_pos_less0)
  moreover have "(a + (- c) * b) div b = - c + a div b"
    using b div_mult_self1 [of b a "- c"] by simp
  ultimately show ?thesis by simp
qed

lemma div_shift: "0 < (b::int) \<Longrightarrow> (a - b) div b = a div b - 1"
  by (metis add.commute diff_add_cancel div_add_self1 less_irrefl add_diff_cancel_right')

lemma days_in_month_pos: "1 \<le> m \<Longrightarrow> m \<le> 12 \<Longrightarrow> 28 \<le> days_in_month y m"
proof -
  assume "1 \<le> m" "m \<le> 12"
  then have "m \<in> {1, 2, 3, 4, 5, 6, 7, 8, 9, 10, 11, 12}" by simp presburger
  then show ?thesis by (auto simp: days_in_month_def)
qed

lemma days_before_month_nonneg: "m \<le> 12 \<Longrightarrow> 0 \<le> days_before_month y m"
  unfolding days_before_month_def
  by (rule sum_list_nonneg) (auto dest!: days_in_month_pos [where y = y])

lemma days_before_year_nonneg: "1 \<le> y \<Longrightarrow> 0 \<le> days_before_year y"
proof -
  assume y: "1 \<le> y"
  have a: "0 \<le> (y - 1) div 400" using y by (simp add: pos_imp_zdiv_nonneg_iff)
  have b: "(y - 1) div 100 \<le> (y - 1) div 4" using y by (intro zdiv_mono2) simp_all
  show ?thesis unfolding days_before_year_def using y a b by simp
qed

lemma datetime_midnight:
  assumes "datetime y m d 0 0 0 = Inr t0"
  shows "0 \<le> t0" and "datetime y m d 23 59 50 = Inr (t0 + 86390)"
proof -
  from assms have v: "1 \<le> y" "1 \<le> m" "m \<le> 12" "1 \<le> d"
    and t0: "t0 = (ymd2ord y m d - 1) * 86400"
    by (auto simp: datetime_def split: if_splits)
  have "1 \<le> ymd2ord y m d"
    using days_before_year_nonneg [OF v(1)] days_before_month_nonneg [OF v(3), of y] v(4)
    by (simp add: ymd2ord_def)
  then show "0 \<le> t0" by (simp add: t0)
  from assms show "datetime y m d 23 59 50 = Inr (t0 + 86390)"
    by (auto simp: datetime_def split: if_splits)
qed

lemma datetime_2025_09_17: "datetime 2025 9 17 0 0 0 = Inr 63893664000"
  by code_simp

text \<open>
  When the day's last instant 23:59:50 gives as many instants as \<open>86400 div i\<close>: the
  remainder of the day by the interval is below 10 seconds and the interval makes up
  for the 10 seconds cut off at the end.
\<close>

lemma len_iff:
  assumes "0 < (i::int)"
  shows "(nat (86390 div i) + 1 = nat (86400 div i))
         = (86400 mod i < 10 \<and> 10 \<le> i + 86400 mod i)"
proof -
  define q r where "q = 86400 div i" and "r = 86400 mod i"
  have e: "86400 = q * i + r" and r: "0 \<le> r" "r < i"
    using assms by (simp_all add: q_def r_def)
  have q0: "0 \<le> q" using assms by (simp add: q_def pos_imp_zdiv_nonneg_iff)
  have n0: "0 \<le> 86390 div i" using assms by (simp add: pos_imp_zdiv_nonneg_iff)
  consider "10 \<le> r" | "r < 10" "10 \<le> i + r" | "i + r < 10" by linarith
  then have "(nat (86390 div i) + 1 = nat q) = (r < 10 \<and> 10 \<le> i + r)"
  proof cases
    case 1
    have "86390 = i * q + (r - 10)" using e by (simp add: mult.commute)
    then have "86390 div i = q + (r - 10) div i"
      using assms by (metis div_mult_self4 less_irrefl)
    also have "(r - 10) div i = 0" using 1 r by simp
    finally show ?thesis using 1 q0 by simp
  next
    case 2
    have "86390 = i * (q - 1) + (i + r - 10)" using e by (simp add: algebra_simps)
    then have "86390 div i = (q - 1) + (i + r - 10) div i"
      using assms by (metis div_mult_self4 less_irrefl)
    also have "(i + r - 10) div i = 0" using 2 r by simp
    finally have d: "86390 div i = q - 1" by simp
    then have "1 \<le> q" using n0 by simp
    then show ?thesis using 2 d by simp
  next
    case 3
    have "86390 < (q - 1) * i" using e 3 by (simp add: algebra_simps)
    then have "86390 div i < q - 1" using assms by (simp add: int_div_less)
    then show ?thesis using 3 n0 by simp
  qed
  then show ?thesis by (simp add: q_def r_def)
qed

section \<open>The timeline\<close>

lemma upt_map_shift:
  "map (\<lambda>k. t + int k * i) [0..<Suc n] = t # map (\<lambda>k. (t + i) + int k * i) [0..<n]"
proof -
  have "[0..<Suc n] = 0 # map Suc [0..<n]"
    by (simp add: upt_conv_Cons map_Suc_upt del: upt_Suc)
  then show ?thesis by (simp add: algebra_simps del: upt_Suc)
qed

text \<open>
  With a positive interval the loop ends, and it collects \<open>t\<close>, \<open>t + interval\<close>, ...
  up to \<open>t1\<close>, provided the instant computed last is still a date.
\<close>

lemma ts_loop_pos:
  assumes "0 < interval" "interval div 86400 \<le> 999999999" "0 \<le> t"
    and "t + ((t1 - t) div interval + 1) * interval < max_ordinal * 86400"
  shows "ts_loop interval t1 t acc =
         Some (Inr (acc @ map (\<lambda>k. t + int k * interval) [0..<nat ((t1 - t) div interval + 1)]))"
  using assms
proof (induction "nat (t1 - t + 1)" arbitrary: t acc rule: less_induct)
  case less
  show ?case
  proof (cases "t \<le> t1")
    case False
    then have "(t1 - t) div interval < 0"
      using less.prems(1) by (simp add: div_neg_pos_less0)
    then show ?thesis using False by (subst ts_loop.simps) simp
  next
    case True
    let ?q = "(t1 - t) div interval"
    have q0: "0 \<le> ?q" using True less.prems(1) by (simp add: pos_imp_zdiv_nonneg_iff)
    have d: "(t1 - (t + interval)) div interval = ?q - 1"
      using div_shift [OF less.prems(1), of "t1 - t"] by (simp add: algebra_simps)
    have "interval \<le> (?q + 1) * interval"
      using q0 less.prems(1) by (simp add: mult_le_cancel_right1)
    then have inr: "t + interval < max_ordinal * 86400" using less.prems(4) by linarith
    have i0: "0 \<le> interval div 86400"
      using less.prems(1) by (simp add: pos_imp_zdiv_nonneg_iff)
    have add: "add_seconds t interval = Inr (t + interval)"
      using inr i0 less.prems by (simp add: add_seconds_def)
    have m: "nat (t1 - (t + interval) + 1) < nat (t1 - t + 1)"
      using True less.prems(1) by linarith
    have p4: "(t + interval) + ((t1 - (t + interval)) div interval + 1) * interval
              < max_ordinal * 86400"
    proof -
      have "(t + interval) + ((t1 - (t + interval)) div interval + 1) * interval
            = t + (?q + 1) * interval"
        unfolding d by (simp add: algebra_simps)
      then show ?thesis using less.prems(4) by simp
    qed
    have ih: "ts_loop interval t1 (t + interval) (acc @ [t]) =
         Some (Inr ((acc @ [t]) @ map (\<lambda>k. (t + interval) + int k * interval) [0..<nat ?q]))"
      using less.hyps [OF m less.prems(1) less.prems(2) _ p4] less.prems(1,3) by (simp add: d)
    have n: "nat (?q + 1) = Suc (nat ?q)" using q0 by simp
    show ?thesis
      using True add ih
      by (subst ts_loop.simps) (simp add: n upt_map_shift del: upt_Suc)
  qed
qed

lemma timeline_pos:
  assumes "datetime y m d 0 0 0 = Inr t0" "0 < interval" "interval div 86400 \<le> 999999999"
    and "t0 + (86390 div interval + 1) * interval < max_ordinal * 86400"
  shows "timeline y m d interval =
         Some (Inr (map (\<lambda>k. t0 + int k * interval) [0..<nat (86390 div interval) + 1]))"
proof -
  have n0: "0 \<le> 86390 div interval" using assms(2) by (simp add: pos_imp_zdiv_nonneg_iff)
  have "ts_loop interval (t0 + 86390) t0 [] =
        Some (Inr ([] @ map (\<lambda>k. t0 + int k * interval)
                          [0..<nat ((t0 + 86390 - t0) div interval + 1)]))"
    by (rule ts_loop_pos) (use assms datetime_midnight(1) [OF assms(1)] in simp_all)
  moreover have "nat (86390 div interval + 1) = nat (86390 div interval) + 1"
    using n0 by simp
  ultimately show ?thesis
    using assms(1) datetime_midnight(2) [OF assms(1)] by (simp add: timeline_def)
qed

text \<open>
  C1 (as amended). For a date that exists and a positive interval that keeps the date
  arithmetic in range, the Timeline Builder returns the instants
  \<open>t0, t0 + interval, t0 + 2 * interval, ...\<close> from midnight up to 23:59:50: instant
  \<open>k\<close> is \<open>t0 + k * interval\<close> (ordered, evenly spaced, no gap, no duplicate) and there are
  \<open>86390 div interval + 1\<close> of them. That number is \<open>86400 div interval\<close> exactly when
  \<open>86400 mod interval < 10 \<le> interval + 86400 mod interval\<close>.
\<close>

theorem timeline_instants:
  assumes "datetime y m d 0 0 0 = Inr t0" "0 < interval" "interval div 86400 \<le> 999999999"
    and "t0 + (86390 div interval + 1) * interval < max_ordinal * 86400"
  shows "\<exists>ts. timeline y m d interval = Some (Inr ts)
           \<and> length ts = nat (86390 div interval) + 1
           \<and> (\<forall>k < length ts. ts ! k = t0 + int k * interval)
           \<and> (\<forall>j k. j < k \<and> k < length ts \<longrightarrow> ts ! j < ts ! k)
           \<and> (length ts = nat (86400 div interval)
                \<longleftrightarrow> 86400 mod interval < 10 \<and> 10 \<le> interval + 86400 mod interval)"
proof -
  let ?ts = "map (\<lambda>k. t0 + int k * interval) [0..<nat (86390 div interval) + 1]"
  have t: "timeline y m d interval = Some (Inr ?ts)" by (rule timeline_pos [OF assms])
  have l: "length ?ts = nat (86390 div interval) + 1" by simp
  have nth: "\<forall>k < length ?ts. ?ts ! k = t0 + int k * interval"
    by (simp add: nth_append less_Suc_eq)
  have mono: "\<forall>j k. j < k \<and> k < length ?ts \<longrightarrow> ?ts ! j < ?ts ! k"
  proof (intro allI impI)
    fix j k assume jk: "j < k \<and> k < length ?ts"
    then have "?ts ! j = t0 + int j * interval" "?ts ! k = t0 + int k * interval"
      using nth by auto
    then show "?ts ! j < ?ts ! k" using jk assms(2) by simp
  qed
  have "(length ?ts = nat (86400 div interval))
        = (86400 mod interval < 10 \<and> 10 \<le> interval + 86400 mod interval)"
    using len_iff [OF assms(2)] by simp
  with t l nth mono show ?thesis by blast
qed

theorem timeline_instants_witness:
  "\<exists>ts. timeline 2025 9 17 21600 = Some (Inr ts) \<and> length ts = 4
        \<and> ts ! 3 = 63893664000 + 3 * 21600"
proof -
  have a: "datetime 2025 9 17 0 0 0 = Inr 63893664000" by (rule datetime_2025_09_17)
  have b: "(0::int) < 21600" "(21600::int) div 86400 \<le> 999999999"
    "63893664000 + (86390 div 21600 + 1) * 21600 < max_ordinal * 86400"
    by (simp_all add: max_ordinal_def)
  from timeline_instants [OF a b] obtain ts where
    t: "timeline 2025 9 17 21600 = Some (Inr ts)"
    and l: "length ts = nat (86390 div 21600) + 1"
    and n: "\<forall>k < length ts. ts ! k = 63893664000 + int k * 21600"
    by blast
  have l4: "length ts = 4" using l by simp
  then have "ts ! 3 = 63893664000 + int 3 * 21600" using n by simp
  with t l4 show ?thesis by simp
qed

text \<open>
  The claim as the specification words it fails: with an interval of 5 seconds the
  builder returns 17279 instants, not 17280, and with an interval of 50000 seconds it
  returns 2 instants, not 1.
\<close>

theorem timeline_length_counterexample:
  "(\<exists>ts. timeline 2025 9 17 5 = Some (Inr ts) \<and> length ts = 17279)
   \<and> nat (86400 div 5) = 17280
   \<and> timeline 2025 9 17 50000 = Some (Inr [63893664000, 63893714000])
   \<and> nat (86400 div 50000) = 1"
proof -
  have a: "datetime 2025 9 17 0 0 0 = Inr 63893664000" by (rule datetime_2025_09_17)
  have "timeline 2025 9 17 5 =
        Some (Inr (map (\<lambda>k. 63893664000 + int k * 5) [0..<nat (86390 div 5) + 1]))"
    by (rule timeline_pos [OF a]) (simp_all add: max_ordinal_def)
  moreover have "length (map (\<lambda>k. 63893664000 + int k * 5) [0..<nat (86390 div 5) + 1]) = 17279"
    by (simp only: length_map length_upt)
  ultimately have five: "\<exists>ts. timeline 2025 9 17 5 = Some (Inr ts) \<and> length ts = 17279"
    by blast
  have "timeline 2025 9 17 50000 =
        Some (Inr (map (\<lambda>k. 63893664000 + int k * 50000) [0..<nat (86390 div 50000) + 1]))"
    by (rule timeline_pos [OF a]) (simp_all add: max_ordinal_def)
  moreover have "map (\<lambda>k. 63893664000 + int k * 50000) [0..<nat (86390 div 50000) + 1]
                 = [63893664000, 63893714000]"
    by (simp add: upt_conv_Cons)
  ultimately have "timeline 2025 9 17 50000 = Some (Inr [63893664000, 63893714000])"
    by simp
  with five show ?thesis by simp
qed

section \<open>The state sequence\<close>

lemma planned_at_eq: "planned_at ws mm s = (if in_planned ws mm then 3 else s)"
proof -
  have stay: "planned_at ws mm 3 = 3" for ws
    by (induction ws) (auto simp: planned_at_def)
  show ?thesis
  proof (induction ws arbitrary: s)
    case Nil
    show ?case by (simp add: planned_at_def in_planned_def)
  next
    case (Cons w ws)
    obtain a b where w: "w = (a, b)" by (cases w)
    have "planned_at (w # ws) mm s = planned_at ws mm (if a \<le> mm \<and> mm < b then 3 else s)"
      by (simp add: planned_at_def w)
    then show ?case using Cons [of s] stay [of ws] by (auto simp: in_planned_def w)
  qed
qed

lemma fault_at_eq: "fault_at ws mm s = (if in_fault ws mm then 4 else s)"
proof -
  have stay: "fault_at ws mm 4 = 4" for ws
    by (induction ws) (auto simp: fault_at_def)
  show ?thesis
  proof (induction ws arbitrary: s)
    case Nil
    show ?case by (simp add: fault_at_def in_fault_def)
  next
    case (Cons w ws)
    obtain a b where w: "w = (a, b)" by (cases w)
    have "fault_at (w # ws) mm s = fault_at ws mm (if a \<le> mm \<and> mm < a + b then 4 else s)"
      by (simp add: fault_at_def w)
    then show ?case using Cons [of s] stay [of ws] by (auto simp: in_fault_def w)
  qed
qed

text \<open>The base profile: instant \<open>i\<close> takes the draw number \<open>pos g + i\<close>.\<close>

lemma base_profile_eq:
  "base_profile ts g =
     (map (\<lambda>i. base_state (minute_of_day (ts ! i)) (draws g (pos g + i))) [0..<length ts],
      g\<lparr>pos := pos g + length ts\<rparr>)"
proof (induction ts arbitrary: g)
  case Nil
  show ?case by simp
next
  case (Cons t ts)
  have "[0..<length (t # ts)] = 0 # map Suc [0..<length ts]"
    by (simp add: upt_conv_Cons map_Suc_upt del: upt_Suc)
  then show ?case
    by (simp add: Cons random_def split_def Let_def comp_def del: upt_Suc)
qed

lemma length_base_profile: "length (fst (base_profile ts g)) = length ts"
  by (simp add: base_profile_eq)

lemma state_codes_eq:
  "state_codes planned faults ts g =
     (map (\<lambda>i. fault_at faults (minute_of_day (ts ! i))
                 (planned_at planned (minute_of_day (ts ! i))
                    (base_state (minute_of_day (ts ! i)) (draws g (pos g + i)))))
          [0..<length ts],
      g\<lparr>pos := pos g + length ts\<rparr>)"
proof -
  have "apply_planned planned ts (fst (base_profile ts g)) =
        map (\<lambda>i. planned_at planned (minute_of_day (ts ! i))
                    (base_state (minute_of_day (ts ! i)) (draws g (pos g + i)))) [0..<length ts]"
    by (rule nth_equalityI) (simp_all add: apply_planned_def base_profile_eq)
  moreover have "apply_faults faults ts (map f [0..<length ts]) =
        map (\<lambda>i. fault_at faults (minute_of_day (ts ! i)) (f i)) [0..<length ts]" for f
    by (rule nth_equalityI) (simp_all add: apply_faults_def)
  ultimately show ?thesis
    by (simp add: state_codes_def base_profile_eq)
qed

text \<open>
  C3. At every instant the state code is FAULT (4) when the minute of the day lies in a
  fault window \<open>[start, start + duration)\<close>, whatever the draws; it is IDLE (3) when the
  minute lies in a planned window \<open>[start, end)\<close> and in no fault window; otherwise it is
  the state of the base profile. The windows are half open: \<open>start \<le> mm < end\<close>.
\<close>

theorem state_override:
  assumes "i < length ts"
  shows "(in_fault faults (minute_of_day (ts ! i))
            \<longrightarrow> fst (state_codes planned faults ts g) ! i = 4)
       \<and> (in_planned planned (minute_of_day (ts ! i)) \<and> \<not> in_fault faults (minute_of_day (ts ! i))
            \<longrightarrow> fst (state_codes planned faults ts g) ! i = 3)
       \<and> (\<not> in_planned planned (minute_of_day (ts ! i)) \<and> \<not> in_fault faults (minute_of_day (ts ! i))
            \<longrightarrow> fst (state_codes planned faults ts g) ! i = fst (base_profile ts g) ! i)
       \<and> (in_fault faults (minute_of_day (ts ! i))
            = (\<exists>(start_m, dur_m) \<in> set faults.
                 start_m \<le> minute_of_day (ts ! i) \<and> minute_of_day (ts ! i) < start_m + dur_m))
       \<and> (in_planned planned (minute_of_day (ts ! i))
            = (\<exists>(a, b) \<in> set planned. a \<le> minute_of_day (ts ! i) \<and> minute_of_day (ts ! i) < b))"
  using assms
  by (simp add: state_codes_eq base_profile_eq fault_at_eq planned_at_eq in_fault_def
      in_planned_def list_ex_iff)

text \<open>
  On 2025-09-17 the instants 10:15:00, 10:18:00, 13:00:00 and 13:30:00, with draws that
  all give RUN in the base profile: the states are FAULT, RUN, IDLE, RUN.
\<close>

theorem state_override_witness:
  "map (\<lambda>i. fst (state_codes planned_windows rare_faults
         [63893700900, 63893701080, 63893710800, 63893712600] (seed (\<lambda>k. 0))) ! i)
       [0, 1, 2, 3]
   = [4, 2, 3, 2]"
proof -
  let ?ts = "[63893700900, 63893701080, 63893710800, 63893712600] :: int list"
  let ?g = "seed (\<lambda>k. 0)"
  let ?sc = "fst (state_codes planned_windows rare_faults ?ts ?g)"
  note ev = minute_of_day_def in_fault_def in_planned_def rare_faults_def planned_windows_def
  have b: "fst (base_profile ?ts ?g) = [2, 2, 2, 2]"
    by (simp add: random_def seed_def base_state_def minute_of_day_def)
  have "?sc ! 0 = 4"
    using state_override [of 0 ?ts rare_faults planned_windows ?g] by (simp add: ev)
  moreover have "?sc ! 1 = 2"
    using state_override [of 1 ?ts rare_faults planned_windows ?g]
    by (simp add: ev b del: base_profile.simps)
  moreover have "?sc ! 2 = 3"
    using state_override [of 2 ?ts rare_faults planned_windows ?g] by (simp add: ev)
  moreover have "?sc ! 3 = 2"
    using state_override [of 3 ?ts rare_faults planned_windows ?g]
    by (simp add: ev b del: base_profile.simps)
  ultimately show ?thesis by (simp only: list.map)
qed

section \<open>The production loop\<close>

text \<open>What a finished run of the inner loop has done, whatever the ideal cycle time.\<close>

lemma part_loop_inv:
  assumes "part_loop ideal reject a = Some y"
  shows "pt a \<le> pt y \<and> pg a \<le> pg y \<and> pg y - pg a \<le> pt y - pt a
       \<and> run_sec_accum y = run_sec_accum a
       \<and> draws (gen y) = draws (gen a) \<and> gauss_next (gen y) = gauss_next (gen a)
       \<and> pos (gen y) = pos (gen a) + nat (pt y - pt a)
       \<and> accum_cycle y = accum_cycle a - ideal * of_int (pt y - pt a)
       \<and> accum_cycle y < ideal
       \<and> (0 \<le> accum_cycle a \<longrightarrow> 0 \<le> accum_cycle y)"
  using assms
proof (induction ideal reject a y rule: part_loop.raw_induct [rotated 1, consumes 1])
  case (1 loop ideal reject a y)
  show ?case
  proof (cases "ideal \<le> accum_cycle a")
    case True
    let ?a1 = "a\<lparr>accum_cycle := accum_cycle a - ideal, pt := pt a + 1,
                   pg := if reject \<le> draws (gen a) (pos (gen a)) then pg a + 1 else pg a,
                   gen := (gen a)\<lparr>pos := Suc (pos (gen a))\<rparr>\<rparr>"
    from 1(2) True have "loop ideal reject ?a1 = Some y"
      by (simp add: random_def)
    from 1(1) [OF this] show ?thesis
      using True by (auto simp: algebra_simps split: if_splits)
  next
    case False
    with 1(2) show ?thesis by simp
  qed
qed



section \<open>One sample, and the whole day\<close>

lemma acc_step_inv:
  assumes "acc_step interval ideal reject r a = Some y"
  shows "pt a \<le> pt y \<and> pg a \<le> pg y \<and> pg y - pg a \<le> pt y - pt a
       \<and> run_sec_accum y = run_sec_accum a + (if r \<noteq> 0 then of_int interval else 0)
       \<and> draws (gen y) = draws (gen a) \<and> gauss_next (gen y) = gauss_next (gen a)
       \<and> pos (gen y) = pos (gen a) + nat (pt y - pt a)"
proof (cases "r = 0")
  case True
  with assms show ?thesis by (simp add: acc_step_def)
next
  case False
  with assms have "part_loop ideal reject
          (a\<lparr>run_sec_accum := run_sec_accum a + of_int interval,
             accum_cycle := accum_cycle a + of_int interval\<rparr>) = Some y"
    by (simp add: acc_step_def)
  from part_loop_inv [OF this] False show ?thesis by simp
qed





lemma accumulate_length:
  "accumulate i d rj rs a = Some (rows, y) \<Longrightarrow> length rows = length rs"
  by (induction rs arbitrary: a rows) (auto split: option.splits)


text \<open>
  The counters of every row are at least those of the state before, good parts grow by
  no more than all parts, and both counters never decrease from row to row. The source
  consumes one draw per completed part.
\<close>

lemma accumulate_inv:
  assumes "accumulate i d rj rs a = Some (rows, y)"
  shows "(\<forall>row \<in> set rows. pt a \<le> fst row \<and> pg a \<le> fst (snd row)
              \<and> fst (snd row) - pg a \<le> fst row - pt a)
       \<and> sorted (map fst rows) \<and> sorted (map (\<lambda>row. fst (snd row)) rows)
       \<and> pt a \<le> pt y \<and> pg a \<le> pg y \<and> pg y - pg a \<le> pt y - pt a
       \<and> (rows \<noteq> [] \<longrightarrow> fst (last rows) = pt y \<and> fst (snd (last rows)) = pg y)
       \<and> draws (gen y) = draws (gen a) \<and> gauss_next (gen y) = gauss_next (gen a)
       \<and> pos (gen y) = pos (gen a) + nat (pt y - pt a)"
  using assms
proof (induction rs arbitrary: a rows)
  case Nil
  then show ?case by simp
next
  case (Cons r rs)
  from Cons.prems obtain a' rows' where
    a': "acc_step i d rj r a = Some a'"
    and r': "accumulate i d rj rs a' = Some (rows', y)"
    and rows: "rows = (pt a', pg a', run_sec_accum a' / 60) # rows'"
    by (auto split: option.splits)
  note s = acc_step_inv [OF a']
  note h = Cons.IH [OF r']
  have 1: "\<forall>row \<in> set rows. pt a \<le> fst row \<and> pg a \<le> fst (snd row)
              \<and> fst (snd row) - pg a \<le> fst row - pt a"
    using s h unfolding rows by fastforce
  have 2: "sorted (map fst rows)" "sorted (map (\<lambda>row. fst (snd row)) rows)"
    using h unfolding rows by auto
  have 3: "pt a \<le> pt y \<and> pg a \<le> pg y \<and> pg y - pg a \<le> pt y - pt a"
    using s h by linarith
  have 4: "fst (last rows) = pt y \<and> fst (snd (last rows)) = pg y"
  proof (cases rs)
    case Nil
    with r' rows show ?thesis by simp
  next
    case (Cons r2 rs2)
    then have "rows' \<noteq> []" using accumulate_length [OF r'] by auto
    then show ?thesis using h unfolding rows by simp
  qed
  have 5: "draws (gen y) = draws (gen a) \<and> gauss_next (gen y) = gauss_next (gen a)"
    using s h by simp
  have p: "pos (gen y) = pos (gen a) + nat (pt a' - pt a) + nat (pt y - pt a')"
    using s h by simp
  have "nat (pt a' - pt a) + nat (pt y - pt a') = nat (pt y - pt a)"
    using s h by linarith
  with p have 6: "pos (gen y) = pos (gen a) + nat (pt y - pt a)" by simp
  from 1 2 3 4 5 6 show ?case by simp
qed




section \<open>Completed runs of the generator\<close>

lemma add_seconds_Inr: "add_seconds t s = Inr t' \<Longrightarrow> t' = t + s"
  by (auto simp: add_seconds_def split: if_splits)

text \<open>A timeline is returned only for a positive interval, and it is never empty.\<close>

lemma ts_loop_Inr:
  assumes "ts_loop interval t1 t acc = Some y"
  shows "\<forall>l. y = Inr l \<longrightarrow> length acc \<le> length l \<and> (t \<le> t1 \<longrightarrow> 0 < interval \<and> length acc < length l)"
  using assms
proof (induction interval t1 t acc y rule: ts_loop.raw_induct [rotated 1, consumes 1])
  case (1 loop interval t1 t acc y)
  show ?case
  proof (cases "t \<le> t1")
    case False
    with 1(2) show ?thesis by auto
  next
    case True
    show ?thesis
    proof (cases "add_seconds t interval")
      case (Inl e)
      with 1(2) True show ?thesis by auto
    next
      case (Inr t')
      with 1(2) True have "loop interval t1 t' (acc @ [t]) = Some y" by simp
      from 1(1) [OF this] add_seconds_Inr [OF Inr] True show ?thesis
        by (auto simp: not_le)
    qed
  qed
qed

lemma timeline_Inr:
  assumes "timeline y m d interval = Some (Inr ts)"
  shows "0 < interval \<and> ts \<noteq> []"
proof -
  from assms obtain t0 where t0: "datetime y m d 0 0 0 = Inr t0"
    by (auto simp: timeline_def split: sum.splits)
  from assms t0 datetime_midnight(2) [OF t0]
  have "ts_loop interval (t0 + 86390) t0 [] = Some (Inr ts)"
    by (simp add: timeline_def)
  from ts_loop_Inr [OF this] show ?thesis by auto
qed

lemma length_motor_current_loop: "length (fst (motor_current_loop ss g)) = length ss"
  by (induction ss arbitrary: g) (auto simp: split_def Let_def)

lemma simulate_Inr:
  assumes "simulate a u = Some (Inr (s, g))"
  obtains y m d rows a' where
    "parse_date (date a) = Inr (y, m, d)"
    "timeline y m d (interval_sec a) = Some (Inr (ts_list s))"
    "state_code s = fst (state_codes planned_windows rare_faults (ts_list s) (seed u))"
    "running s = running_of (state_code s)"
    "accumulate (interval_sec a) (ideal_ct_s a) (reject_rate a) (running s)
        (acc0 (snd (state_codes planned_windows rare_faults (ts_list s) (seed u)))) = Some (rows, a')"
    "parts_total s = map fst rows"
    "parts_good s = map (\<lambda>row. fst (snd row)) rows"
    "run_minutes_today s = map (\<lambda>row. snd (snd row)) rows"
    "motor_current_loop (state_code s) (gen a') = (motor_current s, g)"
  using assms unfolding simulate_def
  by (auto split: sum.splits option.splits prod.splits simp: Let_def)

lemma simulate_lengths:
  assumes "simulate a u = Some (Inr (s, g))"
  shows "length (state_code s) = length (ts_list s)" "length (running s) = length (ts_list s)"
    "length (parts_total s) = length (ts_list s)" "length (parts_good s) = length (ts_list s)"
    "length (run_minutes_today s) = length (ts_list s)"
    "length (motor_current s) = length (ts_list s)"
    "ts_list s \<noteq> []" "0 < interval_sec a"
proof -
  from assms obtain y m d rows a' where
    t: "timeline y m d (interval_sec a) = Some (Inr (ts_list s))"
    and sc: "state_code s = fst (state_codes planned_windows rare_faults (ts_list s) (seed u))"
    and r: "running s = running_of (state_code s)"
    and ac: "accumulate (interval_sec a) (ideal_ct_s a) (reject_rate a) (running s)
        (acc0 (snd (state_codes planned_windows rare_faults (ts_list s) (seed u)))) = Some (rows, a')"
    and p: "parts_total s = map fst rows" "parts_good s = map (\<lambda>row. fst (snd row)) rows"
      "run_minutes_today s = map (\<lambda>row. snd (snd row)) rows"
    and mc: "motor_current_loop (state_code s) (gen a') = (motor_current s, g)"
    by (rule simulate_Inr)
  show 1: "length (state_code s) = length (ts_list s)" by (simp add: sc state_codes_eq)
  then show 2: "length (running s) = length (ts_list s)" by (simp add: r running_of_def)
  from accumulate_length [OF ac] 2 p
  show "length (parts_total s) = length (ts_list s)" "length (parts_good s) = length (ts_list s)"
    "length (run_minutes_today s) = length (ts_list s)" by simp_all
  from length_motor_current_loop [of "state_code s" "gen a'"] mc 1
  show "length (motor_current s) = length (ts_list s)" by simp
  from timeline_Inr [OF t] show "ts_list s \<noteq> []" "0 < interval_sec a" by simp_all
qed


section \<open>The small run, step by step\<close>

lemma demo_date: "parse_date (date demo_args) = Inr (2025, 9, 17)"
  by (simp add: demo_args_def parse_date_def py_int_def py_strip_def is_py_space_def
      is_digit_def digit_of_def)

lemma demo_timeline:
  "timeline 2025 9 17 (interval_sec demo_args)
   = Some (Inr [63893664000, 63893685600, 63893707200, 63893728800])"
proof -
  have "timeline 2025 9 17 21600 =
        Some (Inr (map (\<lambda>k. 63893664000 + int k * 21600) [0..<nat (86390 div 21600) + 1]))"
    by (rule timeline_pos [OF datetime_2025_09_17]) (simp_all add: max_ordinal_def)
  moreover have "map (\<lambda>k. 63893664000 + int k * 21600) [0..<nat (86390 div 21600) + 1]
                 = [63893664000, 63893685600, 63893707200, 63893728800]"
    by (simp add: upt_conv_Cons)
  ultimately show ?thesis by (simp add: demo_args_def)
qed

lemma demo_states:
  "state_codes planned_windows rare_faults
     [63893664000, 63893685600, 63893707200, 63893728800] (seed demo_draws)
   = ([0, 2, 2, 2], \<lparr>draws = demo_draws, pos = 4, gauss_next = None\<rparr>)"
  by (simp add: state_codes_def apply_planned_def apply_faults_def planned_at_def fault_at_def
      planned_windows_def rare_faults_def random_def seed_def base_state_def minute_of_day_def
      demo_draws_def)

lemma demo_accumulate:
  "accumulate (interval_sec demo_args) (ideal_ct_s demo_args) (reject_rate demo_args) [0, 1, 1, 1]
     (acc0 \<lparr>draws = demo_draws, pos = 4, gauss_next = None\<rparr>)
   = Some ([(0, 0, 0), (2, 1, 360), (4, 3, 720), (6, 5, 1080)],
           \<lparr>pt = 6, pg = 5, run_sec_accum = 64800, accum_cycle = 4800,
            gen = \<lparr>draws = demo_draws, pos = 10, gauss_next = None\<rparr>\<rparr>)"
  by (simp add: demo_args_def acc_step_def acc0_def part_loop.simps random_def demo_draws_def)

lemma demo_simulate:
  "\<exists>mc g. simulate demo_args demo_draws =
     Some (Inr (\<lparr>ts_list = [63893664000, 63893685600, 63893707200, 63893728800],
                 state_code = [0, 2, 2, 2], running = [0, 1, 1, 1],
                 parts_total = [0, 2, 4, 6], parts_good = [0, 1, 3, 5],
                 run_minutes_today = [0, 360, 720, 1080], motor_current = mc\<rparr>, g))"
proof -
  obtain mc g where mc: "motor_current_loop [0, 2, 2, 2]
      \<lparr>draws = demo_draws, pos = 10, gauss_next = None\<rparr> = (mc, g)"
    by (cases "motor_current_loop [0, 2, 2, 2] \<lparr>draws = demo_draws, pos = 10, gauss_next = None\<rparr>")
  have "simulate demo_args demo_draws =
     Some (Inr (\<lparr>ts_list = [63893664000, 63893685600, 63893707200, 63893728800],
                 state_code = [0, 2, 2, 2], running = [0, 1, 1, 1],
                 parts_total = [0, 2, 4, 6], parts_good = [0, 1, 3, 5],
                 run_minutes_today = [0, 360, 720, 1080], motor_current = mc\<rparr>, g))"
    by (simp add: simulate_def demo_date demo_timeline demo_states running_of_def
        demo_accumulate mc del: accumulate.simps motor_current_loop.simps)
  then show ?thesis by blast
qed

section \<open>Production counters\<close>

text \<open>
  C4. In every generated timeline the three counter lists have one entry per instant,
  \<open>parts_total[i] \<ge> parts_good[i] \<ge> 0\<close> at every index, and both lists are
  non-decreasing. (Lemma \<open>simulate_total\<close> shows that timelines are generated.)
\<close>

theorem parts_counters:
  assumes "simulate a u = Some (Inr (s, g))"
  shows "length (parts_total s) = length (ts_list s)
       \<and> length (parts_good s) = length (ts_list s)
       \<and> (\<forall>i < length (ts_list s). 0 \<le> parts_good s ! i \<and> parts_good s ! i \<le> parts_total s ! i)
       \<and> (\<forall>i j. i \<le> j \<and> j < length (ts_list s)
              \<longrightarrow> parts_total s ! i \<le> parts_total s ! j \<and> parts_good s ! i \<le> parts_good s ! j)"
proof -
  from assms obtain rows a' where
    ac: "accumulate (interval_sec a) (ideal_ct_s a) (reject_rate a) (running s)
        (acc0 (snd (state_codes planned_windows rare_faults (ts_list s) (seed u)))) = Some (rows, a')"
    and p: "parts_total s = map fst rows" "parts_good s = map (\<lambda>row. fst (snd row)) rows"
    by (rule simulate_Inr)
  note l = simulate_lengths(3,4) [OF assms]
  have n: "length rows = length (ts_list s)" using l(1) p(1) by simp
  from accumulate_inv [OF ac]
  have b: "\<forall>row \<in> set rows. 0 \<le> fst (snd row) \<and> fst (snd row) \<le> fst row"
    and st: "sorted (parts_total s)" and sg: "sorted (parts_good s)"
    by (auto simp: acc0_def p)
  have 1: "\<forall>i < length (ts_list s). 0 \<le> parts_good s ! i \<and> parts_good s ! i \<le> parts_total s ! i"
    using b n by (simp add: p)
  have 2: "\<forall>i j. i \<le> j \<and> j < length (ts_list s)
              \<longrightarrow> parts_total s ! i \<le> parts_total s ! j \<and> parts_good s ! i \<le> parts_good s ! j"
    using st sg l by (simp add: sorted_iff_nth_mono)
  from l 1 2 show ?thesis by simp
qed

theorem parts_counters_witness:
  "\<exists>s g. simulate demo_args demo_draws = Some (Inr (s, g))
     \<and> parts_total s = [0, 2, 4, 6] \<and> parts_good s = [0, 1, 3, 5]
     \<and> 0 \<le> parts_good s ! 1 \<and> parts_good s ! 1 \<le> parts_total s ! 1
     \<and> parts_total s ! 1 \<le> parts_total s ! 2 \<and> parts_good s ! 1 \<le> parts_good s ! 2"
proof -
  from demo_simulate obtain mc g where
    s: "simulate demo_args demo_draws =
     Some (Inr (\<lparr>ts_list = [63893664000, 63893685600, 63893707200, 63893728800],
                 state_code = [0, 2, 2, 2], running = [0, 1, 1, 1],
                 parts_total = [0, 2, 4, 6], parts_good = [0, 1, 3, 5],
                 run_minutes_today = [0, 360, 720, 1080], motor_current = mc\<rparr>, g))"
    (is "_ = Some (Inr (?s, g))")
    by blast
  from parts_counters [OF s]
  have "0 \<le> parts_good ?s ! 1 \<and> parts_good ?s ! 1 \<le> parts_total ?s ! 1"
    and "parts_total ?s ! 1 \<le> parts_total ?s ! 2 \<and> parts_good ?s ! 1 \<le> parts_good ?s ! 2"
    by simp_all
  with s show ?thesis by (intro exI [of _ ?s] exI [of _ g]) simp
qed

section \<open>Running time\<close>




section \<open>Parts per running time\<close>




section \<open>The emitted rows\<close>

lemma length_concat_blocks:
  "\<forall>k < n. length (f k) = m \<Longrightarrow> length (concat (map f [0..<n])) = m * n"
  by (induction n) simp_all

lemma concat_block:
  assumes "\<forall>k < n. length (f k) = m" "i < n"
  shows "take m (drop (m * i) (concat (map f [0..<n]))) = f i"
  using assms
proof (induction n)
  case 0
  then show ?case by simp
next
  case (Suc n)
  have l: "length (concat (map f [0..<n])) = m * n"
    using Suc.prems(1) by (intro length_concat_blocks) simp
  show ?case
  proof (cases "i < n")
    case True
    then have "m * Suc i \<le> m * n" by (intro mult_le_mono2) simp
    then have "m * i + m \<le> m * n" by simp
    then show ?thesis using Suc.IH True Suc.prems(1) l by simp
  next
    case False
    then have "i = n" using Suc.prems(2) by simp
    then show ?thesis using l Suc.prems(1) by simp
  qed
qed

lemma length_rows_at: "length (rows_at a s i) = 6"
  by (simp add: rows_at_def Let_def)

lemma rows_at_no_config: "filter (\<lambda>e. ev_object e = ''config'') (rows_at a s i) = []"
  by (simp add: rows_at_def Let_def add_row_def)

lemma filter_concat_empty:
  "\<forall>x \<in> set xs. filter P (f x) = [] \<Longrightarrow> filter P (concat (map f xs)) = []"
  by (induction xs) simp_all

text \<open>
  C8. For every generated timeline the generator writes the file to its end. The first
  row is the configuration event (the ideal cycle time, in seconds) at the first instant,
  and it is the only configuration event. Then each instant \<open>i\<close> has its six rows, in
  the order state_code, running, parts_total, parts_good, run_minutes_today,
  motor_current_a (the sensor reading), all stamped with instant \<open>i\<close>.
\<close>

theorem emitted_rows:
  assumes "simulate a u = Some (Inr (s, g))"
  shows "\<exists>rows. main a u = Some (Written rows)
       \<and> length rows = 1 + 6 * length (ts_list s)
       \<and> rows ! 0 = add_row a (ts_list s ! 0) ''config'' ''ideal_ct_s''
                        (VFloat (ideal_ct_s a)) (Some ''s'')
       \<and> filter (\<lambda>e. ev_object e = ''config'') rows = [rows ! 0]
       \<and> (\<forall>i < length (ts_list s).
             take 6 (drop (1 + 6 * i) rows) = rows_at a s i
             \<and> map ev_metric (rows_at a s i)
                 = [''state_code'', ''running'', ''parts_total'', ''parts_good'',
                    ''run_minutes_today'', ''motor_current_a'']
             \<and> map ev_ts (rows_at a s i) = replicate 6 (ts_list s ! i)
             \<and> map (p_value \<circ> ev_payload) (rows_at a s i)
                 = [VInt (state_code s ! i), VBool (running s ! i \<noteq> 0),
                    VInt (parts_total s ! i), VInt (parts_good s ! i),
                    VFloat (run_minutes_today s ! i), VFloat (motor_current s ! i)])"
proof -
  let ?n = "length (ts_list s)"
  let ?c = "add_row a (ts_list s ! 0) ''config'' ''ideal_ct_s'' (VFloat (ideal_ct_s a)) (Some ''s'')"
  let ?rows = "?c # concat (map (rows_at a s) [0..<?n])"
  from simulate_lengths(7) [OF assms] obtain t0 ts where ts: "ts_list s = t0 # ts"
    by (cases "ts_list s") simp_all
  then have w: "write_rows a s = Inr ?rows" by (simp add: write_rows_def)
  then have m: "main a u = Some (Written ?rows)" using assms by (simp add: main_def)
  have l: "length ?rows = 1 + 6 * ?n"
    using length_concat_blocks [of ?n "rows_at a s" 6] by (simp add: length_rows_at)
  have "filter (\<lambda>e. ev_object e = ''config'') (concat (map (rows_at a s) [0..<?n])) = []"
    by (rule filter_concat_empty) (simp add: rows_at_no_config)
  then have f: "filter (\<lambda>e. ev_object e = ''config'') ?rows = [?rows ! 0]"
    by (simp add: add_row_def)
  have b: "take 6 (drop (1 + 6 * i) ?rows) = rows_at a s i" if "i < ?n" for i
    using concat_block [of ?n "rows_at a s" 6 i] that by (simp add: length_rows_at)
  have r: "map ev_metric (rows_at a s i)
                 = [''state_code'', ''running'', ''parts_total'', ''parts_good'',
                    ''run_minutes_today'', ''motor_current_a'']
             \<and> map ev_ts (rows_at a s i) = replicate 6 (ts_list s ! i)
             \<and> map (p_value \<circ> ev_payload) (rows_at a s i)
                 = [VInt (state_code s ! i), VBool (running s ! i \<noteq> 0),
                    VInt (parts_total s ! i), VInt (parts_good s ! i),
                    VFloat (run_minutes_today s ! i), VFloat (motor_current s ! i)]" for i
    by (simp add: rows_at_def Let_def add_row_def numeral_eq_Suc)
  show ?thesis
    using m l f b r by (intro exI [of _ ?rows]) (simp del: upt_Suc)
qed

theorem emitted_rows_witness:
  "\<exists>rows. main demo_args demo_draws = Some (Written rows)
     \<and> length rows = 25
     \<and> ev_metric (rows ! 0) = ''ideal_ct_s'' \<and> ev_ts (rows ! 0) = 63893664000
     \<and> map ev_metric (take 6 (drop 7 rows))
         = [''state_code'', ''running'', ''parts_total'', ''parts_good'',
            ''run_minutes_today'', ''motor_current_a'']
     \<and> map ev_ts (take 6 (drop 7 rows)) = replicate 6 63893685600
     \<and> map (p_value \<circ> ev_payload) (take 4 (drop 7 rows)) = [VInt 2, VBool True, VInt 2, VInt 1]"
proof -
  from demo_simulate obtain mc g where
    s: "simulate demo_args demo_draws =
     Some (Inr (\<lparr>ts_list = [63893664000, 63893685600, 63893707200, 63893728800],
                 state_code = [0, 2, 2, 2], running = [0, 1, 1, 1],
                 parts_total = [0, 2, 4, 6], parts_good = [0, 1, 3, 5],
                 run_minutes_today = [0, 360, 720, 1080], motor_current = mc\<rparr>, g))"
    (is "_ = Some (Inr (?s, g))")
    by blast
  from emitted_rows [OF s] obtain rows where
    m: "main demo_args demo_draws = Some (Written rows)"
    and l: "length rows = 1 + 6 * length (ts_list ?s)"
    and c: "rows ! 0 = add_row demo_args (ts_list ?s ! 0) ''config'' ''ideal_ct_s''
                        (VFloat (ideal_ct_s demo_args)) (Some ''s'')"
    and b: "\<forall>i < length (ts_list ?s).
             take 6 (drop (1 + 6 * i) rows) = rows_at demo_args ?s i
             \<and> map ev_metric (rows_at demo_args ?s i)
                 = [''state_code'', ''running'', ''parts_total'', ''parts_good'',
                    ''run_minutes_today'', ''motor_current_a'']
             \<and> map ev_ts (rows_at demo_args ?s i) = replicate 6 (ts_list ?s ! i)
             \<and> map (p_value \<circ> ev_payload) (rows_at demo_args ?s i)
                 = [VInt (state_code ?s ! i), VBool (running ?s ! i \<noteq> 0),
                    VInt (parts_total ?s ! i), VInt (parts_good ?s ! i),
                    VFloat (run_minutes_today ?s ! i), VFloat (motor_current ?s ! i)]"
    by blast
  from b [rule_format, of 1] have b1: "take 6 (drop 7 rows) = rows_at demo_args ?s 1"
    and b2: "map ev_metric (rows_at demo_args ?s 1)
                 = [''state_code'', ''running'', ''parts_total'', ''parts_good'',
                    ''run_minutes_today'', ''motor_current_a'']"
    and b3: "map ev_ts (rows_at demo_args ?s 1) = replicate 6 63893685600"
    and b4: "map (p_value \<circ> ev_payload) (rows_at demo_args ?s 1)
                 = [VInt 2, VBool True, VInt 2, VInt 1, VFloat 360, VFloat (mc ! 1)]"
    by simp_all
  have "take 4 (drop 7 rows) = take 4 (take 6 (drop 7 rows))" by simp
  then have "map (p_value \<circ> ev_payload) (take 4 (drop 7 rows))
             = take 4 (map (p_value \<circ> ev_payload) (rows_at demo_args ?s 1))"
    unfolding b1 by (simp only: take_map)
  then have v: "map (p_value \<circ> ev_payload) (take 4 (drop 7 rows))
                = [VInt 2, VBool True, VInt 2, VInt 1]"
    unfolding b4 by simp
  have "length rows = 25" using l by simp
  moreover have "ev_metric (rows ! 0) = ''ideal_ct_s'' \<and> ev_ts (rows ! 0) = 63893664000"
    unfolding c by (simp add: add_row_def)
  ultimately show ?thesis using m b1 b2 b3 v by (intro exI [of _ rows]) simp
qed

section \<open>Replaying a log\<close>

lemma prev_after_Cons:
  "prev_after parse prev (row # rows) = prev_after parse (parse (ts_iso row)) rows"
  by (cases rows) (simp_all add: prev_after_def)

text \<open>A pass over two pieces of a log: the second piece starts from the \<^verbatim>\<open>prev\<close> the first left.\<close>

lemma publish_rows_append:
  assumes "publish_rows parse speed prev xs = (tr, None)"
  shows "publish_rows parse speed prev (xs @ ys) =
         (tr @ fst (publish_rows parse speed (prev_after parse prev xs) ys),
          snd (publish_rows parse speed (prev_after parse prev xs) ys))"
  using assms
proof (induction xs arbitrary: prev tr)
  case Nil
  then show ?case by (simp add: prev_after_def)
next
  case (Cons row xs)
  from Cons.prems obtain sl tr' where
    d: "delay speed prev (parse (ts_iso row)) = Inr sl"
    and r: "publish_rows parse speed (parse (ts_iso row)) xs = (tr', None)"
    and tr: "tr = sl @ Publish (topic row) (payload_json row) # tr'"
    by (auto simp: Let_def split: sum.splits prod.splits)
  from Cons.IH [OF r] show ?case
    by (simp add: d tr prev_after_Cons Let_def split_def)
qed

lemma delay_unparsed: "delay speed prev None = Inr []"
  by (simp add: delay_def split: option.splits)

lemma delay_first: "delay speed None t = Inr []"
  by (simp add: delay_def)

lemma delay_nonpos:
  "aware t = aware p \<Longrightarrow> micros t \<le> micros p \<Longrightarrow> delay speed (Some p) (Some t) = Inr []"
  by (simp add: delay_def total_seconds_def divide_le_0_iff)

text \<open>
  C9. Let a pass have delivered the rows \<open>pre\<close> without an exception. If the timestamp
  of the next row does not parse, or if it parses and is not later than the timestamp of
  the row before, the row is published next with no sleep before it, and the pass goes on
  with the rows after it.
\<close>

theorem unparsed_delivered:
  assumes "publish_once parse speed pre = (tr, None)"
    and "parse (ts_iso row) = None
         \<or> (\<exists>p t. prev_after parse None pre = Some p \<and> parse (ts_iso row) = Some t
                  \<and> aware t = aware p \<and> micros t \<le> micros p)"
  shows "publish_once parse speed (pre @ row # post) =
         (tr @ Publish (topic row) (payload_json row)
             # fst (publish_rows parse speed (parse (ts_iso row)) post),
          snd (publish_rows parse speed (parse (ts_iso row)) post))"
proof -
  have d: "delay speed (prev_after parse None pre) (parse (ts_iso row)) = Inr []"
    using assms(2) by (auto simp: delay_unparsed delay_nonpos)
  from assms(1) have "publish_rows parse speed None pre = (tr, None)"
    by (simp add: publish_once_def)
  from publish_rows_append [OF this, of "row # post"] show ?thesis
    by (simp add: publish_once_def d Let_def split_def)
qed

text \<open>
  A log with the timestamps 10, (unparsable), 30, 20: every row is published, none after a
  sleep.
\<close>

theorem unparsed_delivered_witness:
  "publish_once demo_parse 1
     [demo_row ''10'' ''a'', demo_row ''oops'' ''b'', demo_row ''30'' ''c'', demo_row ''20'' ''d'']
   = ([Publish ''a'' ''{}'', Publish ''b'' ''{}'', Publish ''c'' ''{}'', Publish ''d'' ''{}''], None)"
proof -
  note ev = demo_parse_def demo_row_def py_int_def py_strip_def is_py_space_def is_digit_def
    digit_of_def
  have 1: "publish_once demo_parse 1 [demo_row ''10'' ''a''] = ([Publish ''a'' ''{}''], None)"
    by (simp add: publish_once_def delay_def ev)
  have b: "demo_parse (ts_iso (demo_row ''oops'' ''b'')) = None" by (simp add: ev)
  have 3: "publish_rows demo_parse 1 None [demo_row ''30'' ''c''] = ([Publish ''c'' ''{}''], None)"
    by (simp add: delay_def ev)
  from unparsed_delivered [of demo_parse 1 "[demo_row ''10'' ''a'']" "[Publish ''a'' ''{}'']"
      "demo_row ''oops'' ''b''" "[demo_row ''30'' ''c'']"] 1 b 3
  have 4: "publish_once demo_parse 1
             [demo_row ''10'' ''a'', demo_row ''oops'' ''b'', demo_row ''30'' ''c'']
           = ([Publish ''a'' ''{}'', Publish ''b'' ''{}'', Publish ''c'' ''{}''], None)"
    by (simp add: demo_row_def)
  have p: "prev_after demo_parse None
             [demo_row ''10'' ''a'', demo_row ''oops'' ''b'', demo_row ''30'' ''c'']
           = Some \<lparr>aware = True, micros = 30000000\<rparr>"
    by (simp add: prev_after_def ev)
  have t: "demo_parse (ts_iso (demo_row ''20'' ''d'')) = Some \<lparr>aware = True, micros = 20000000\<rparr>"
    by (simp add: ev)
  from unparsed_delivered [of demo_parse 1
      "[demo_row ''10'' ''a'', demo_row ''oops'' ''b'', demo_row ''30'' ''c'']"
      "[Publish ''a'' ''{}'', Publish ''b'' ''{}'', Publish ''c'' ''{}'']"
      "demo_row ''20'' ''d''" "[]"] 4 p t
  show ?thesis by (simp add: demo_row_def)
qed

text \<open>
  C10. After a row whose timestamp does not parse, the row that follows is published with
  no sleep either, whatever its own timestamp and the timestamps before: the failed parse
  leaves \<^verbatim>\<open>prev = None\<close>.
\<close>

theorem after_unparsed_no_sleep:
  assumes "publish_once parse speed pre = (tr, None)" and "parse (ts_iso bad) = None"
  shows "publish_once parse speed (pre @ bad # nxt # post) =
         (tr @ Publish (topic bad) (payload_json bad) # Publish (topic nxt) (payload_json nxt)
             # fst (publish_rows parse speed (parse (ts_iso nxt)) post),
          snd (publish_rows parse speed (parse (ts_iso nxt)) post))"
proof -
  from assms(1) have "publish_rows parse speed None pre = (tr, None)"
    by (simp add: publish_once_def)
  from publish_rows_append [OF this, of "bad # nxt # post"] show ?thesis
    by (simp add: publish_once_def assms(2) delay_unparsed delay_first Let_def split_def)
qed

text \<open>
  The rows at 10 and at 30 seconds are 20 seconds apart: replayed one after the other
  there is a sleep of 20 seconds between them, and none with an unparsable row in between.
\<close>

theorem after_unparsed_no_sleep_witness:
  "publish_once demo_parse 1 [demo_row ''10'' ''a'', demo_row ''30'' ''c'']
     = ([Publish ''a'' ''{}'', Sleep 20, Publish ''c'' ''{}''], None)
   \<and> publish_once demo_parse 1
       [demo_row ''10'' ''a'', demo_row ''oops'' ''b'', demo_row ''30'' ''c'']
     = ([Publish ''a'' ''{}'', Publish ''b'' ''{}'', Publish ''c'' ''{}''], None)"
proof -
  note ev = demo_parse_def demo_row_def py_int_def py_strip_def is_py_space_def is_digit_def
    digit_of_def
  have 0: "publish_once demo_parse 1 [demo_row ''10'' ''a'', demo_row ''30'' ''c'']
     = ([Publish ''a'' ''{}'', Sleep 20, Publish ''c'' ''{}''], None)"
    by (simp add: publish_once_def delay_def total_seconds_def ev)
  have 1: "publish_once demo_parse 1 [demo_row ''10'' ''a''] = ([Publish ''a'' ''{}''], None)"
    by (simp add: publish_once_def delay_def ev)
  have b: "demo_parse (ts_iso (demo_row ''oops'' ''b'')) = None" by (simp add: ev)
  from after_unparsed_no_sleep [OF 1 b, of "demo_row ''30'' ''c''" "[]"]
  have "publish_once demo_parse 1
       [demo_row ''10'' ''a'', demo_row ''oops'' ''b'', demo_row ''30'' ''c'']
     = ([Publish ''a'' ''{}'', Publish ''b'' ''{}'', Publish ''c'' ''{}''], None)"
    by (simp add: demo_row_def)
  with 0 show ?thesis by simp
qed

section \<open>Configurations that are not checked\<close>













end
